theory Spec2Isabelle
  imports Complex_Main "HOL-Library.Char_ord" "HOL-Library.List_Lexorder"
begin

section \<open>Errors\<close>

text \<open>
  The Python exceptions the pipeline can raise, under the names the specification gives
  them. \<open>InvalidShapeError\<close> is the \<open>ValueError\<close> of \<open>reshape(-1, 3)\<close>,
  \<open>IndexError\<close> is Python's own (row 0 of an array without rows),
  \<open>UnknownLabelError\<close> is raised by the label encoder on an unseen label and
  \<open>InsufficientSamplesError\<close> is the \<open>ValueError\<close> of the stratified split.
\<close>

datatype error = InvalidShapeError | IndexError | UnknownLabelError | InsufficientSamplesError

section \<open>Binary64 arithmetic\<close>

text \<open>
  numpy computes on float64. A finite float64 is a real number; every arithmetic
  operation returns the exact result rounded to the nearest representable number, ties
  to the even significand. \<open>round64\<close> is that rounding, with gradual underflow below
  \<open>2 powr -1022\<close>. Infinities and NaN are not represented: a valid input is a
  vector of finite numbers whose intermediate results stay in range.
\<close>

definition rne :: "real \<Rightarrow> int" where
  "rne x = (let f = \<lfloor>x\<rfloor>; d = x - of_int f
            in if d < 1 / 2 then f
               else if 1 / 2 < d then f + 1
               else if even f then f else f + 1)"

definition round64 :: "real \<Rightarrow> real" where
  "round64 x =
     (if x = 0 then 0
      else let e = max \<lfloor>log 2 \<bar>x\<bar>\<rfloor> (- 1022);
               u = 2 powr (of_int e - 52)
           in of_int (rne (x / u)) * u)"

section \<open>normalize_landmarks\<close>

text \<open>
  \<open>np.array(flat_landmarks).reshape(-1, 3)\<close>: rows of three consecutive entries;
  a length that is not a multiple of 3 raises.
\<close>

fun rows3 :: "'a list \<Rightarrow> 'a list list" where
  "rows3 (x # y # z # rest) = [x, y, z] # rows3 rest"
| "rows3 _ = []"

definition reshape3 :: "'a list \<Rightarrow> error + 'a list list" where
  "reshape3 flat = (if length flat mod 3 \<noteq> 0 then Inl InvalidShapeError else Inr (rows3 flat))"

text \<open>\<open>landmarks - wrist\<close>, broadcast over the rows, one rounding per entry.\<close>

definition row_sub :: "(real \<Rightarrow> real) \<Rightarrow> real list \<Rightarrow> real list \<Rightarrow> real list" where
  "row_sub rnd r w = map (\<lambda>(a, b). rnd (a - b)) (zip r w)"

definition center :: "(real \<Rightarrow> real) \<Rightarrow> real list list \<Rightarrow> real list \<Rightarrow> real list list" where
  "center rnd landmarks wrist = map (\<lambda>r. row_sub rnd r wrist) landmarks"

text \<open>
  \<open>np.linalg.norm(landmarks, axis=1)\<close> is \<open>sqrt(add.reduce(x * x, axis=1))\<close>:
  the squares of a row are rounded, added one after the other with a rounding at each
  addition, and the root is rounded.
\<close>

fun add_reduce :: "(real \<Rightarrow> real) \<Rightarrow> real list \<Rightarrow> real" where
  "add_reduce rnd [] = 0"
| "add_reduce rnd (a # as) = foldl (\<lambda>s b. rnd (s + b)) a as"

definition row_norm :: "(real \<Rightarrow> real) \<Rightarrow> real list \<Rightarrow> real" where
  "row_norm rnd r = rnd (sqrt (add_reduce rnd (map (\<lambda>a. rnd (a * a)) r)))"

definition max_dist :: "(real \<Rightarrow> real) \<Rightarrow> real list list \<Rightarrow> real" where
  "max_dist rnd landmarks = Max (set (map (row_norm rnd) landmarks))"

text \<open>\<open>landmarks / max_dist\<close>, taken only when \<open>max_dist > 0\<close>.\<close>

definition scale :: "(real \<Rightarrow> real) \<Rightarrow> real list list \<Rightarrow> real list list" where
  "scale rnd landmarks =
     (let m = max_dist rnd landmarks
      in if m > 0 then map (map (\<lambda>a. rnd (a / m))) landmarks else landmarks)"

text \<open>
  The function of the source, with the rounding of the arithmetic as a parameter.
\<close>

definition normalize_with :: "(real \<Rightarrow> real) \<Rightarrow> real list \<Rightarrow> error + real list" where
  "normalize_with rnd flat_landmarks =
     (case reshape3 flat_landmarks of
        Inl e \<Rightarrow> Inl e
      | Inr landmarks \<Rightarrow>
          (case landmarks of
             [] \<Rightarrow> Inl IndexError
           | wrist # _ \<Rightarrow> Inr (concat (scale rnd (center rnd landmarks wrist)))))"

text \<open>\<open>normalize_landmarks\<close> as it runs: float64 arithmetic.\<close>

definition normalize_landmarks :: "real list \<Rightarrow> error + real list" where
  "normalize_landmarks = normalize_with round64"




section \<open>Label vocabulary\<close>

text \<open>
  Modelled from the spec: \<open>LabelVocabulary\<close>. The source builds it with
  scikit-learn's \<open>LabelEncoder\<close> (\<open>fit_transform\<close>, \<open>classes_\<close>), whose code
  is not part of the repository. Following section 4.3, \<open>fit\<close> collects the distinct
  labels and sorts them, the index of a label is its position in that list, \<open>encode\<close>
  fails with \<open>UnknownLabelError\<close> on a label that was not fitted, \<open>decode\<close> reads
  the list at a class index. Labels are strings, ordered lexicographically by character
  code.
\<close>

definition fit :: "string list \<Rightarrow> string list" where
  "fit labels = sort (remdups labels)"

text \<open>
  Modelled from the spec: the class index of a label is its position in the fitted
  list (inside \<open>LabelEncoder\<close>, not under src/).
\<close>

fun index_of :: "'a list \<Rightarrow> 'a \<Rightarrow> nat option" where
  "index_of [] x = None"
| "index_of (y # ys) x = (if x = y then Some 0 else map_option Suc (index_of ys x))"

text \<open>
  Modelled from the spec: \<open>encode\<close> of section 4.3 (\<open>LabelEncoder.transform\<close>,
  not under src/); a label absent from the fitted set fails with \<open>UnknownLabelError\<close>.
\<close>

definition encode :: "string list \<Rightarrow> string \<Rightarrow> error + nat" where
  "encode classes label =
     (case index_of classes label of None \<Rightarrow> Inl UnknownLabelError | Some i \<Rightarrow> Inr i)"

text \<open>
  Modelled from the spec: \<open>decode\<close> of section 4.3
  (\<open>LabelEncoder.inverse_transform\<close>, not under src/); an index outside
  \<open>0..C-1\<close> names no label.
\<close>

definition decode :: "string list \<Rightarrow> nat \<Rightarrow> error + string" where
  "decode classes i = (if i < length classes then Inr (classes ! i) else Inl UnknownLabelError)"

text \<open>
  Modelled from the spec: \<open>label_encoder.fit_transform(y)\<close> of the source
  (\<open>LabelEncoder\<close>, not under src/): the class index of every label,
  together with \<open>classes_\<close>.
\<close>

definition fit_transform :: "string list \<Rightarrow> string list \<times> (error + nat) list" where
  "fit_transform y = (fit y, map (encode (fit y)) y)"

section \<open>Stratified split\<close>

text \<open>
  Modelled from the spec: \<open>SplitStrategy.split\<close>. The source calls scikit-learn's
  \<open>train_test_split(X, y_encoded, test_size=0.2, random_state=42, stratify=y_encoded)\<close>,
  whose code is not part of the repository, and neither is numpy's random generator.
  Following section 4.4: \<open>holdout_fraction\<close> of the rows go to the evaluation
  partition, every class is divided between the partitions in proportion to its size
  (within rounding), the rows are drawn by a generator started from the seed, and a
  class with fewer than 2 members makes the split fail with
  \<open>InsufficientSamplesError\<close>. Where the specification is silent the model follows
  the library: the evaluation size is the ceiling of \<open>holdout_fraction * n\<close>, the
  per-class sizes are the floors of the proportional shares with the missing draws given
  to the classes of largest remainder, each class is permuted and cut, and both
  partitions are permuted once more. Every \<open>ValueError\<close> of the library is the one
  error of the specification.

  The random generator is a parameter: a state type with the state made from a seed,
  a draw of a permutation of \<open>0..<n\<close> and a draw of \<open>k\<close> distinct elements of a
  list, each returning the next state.
\<close>

text \<open>
  Modelled from the spec: the seeded random generator (numpy's \<open>RandomState\<close>, not
  under src/), as the three operations the split uses.
\<close>

record 'g random_state =
  rs_seeded :: "int \<Rightarrow> 'g"
  rs_permutation :: "'g \<Rightarrow> nat \<Rightarrow> nat list \<times> 'g"
  rs_choice :: "'g \<Rightarrow> nat list \<Rightarrow> nat \<Rightarrow> nat list \<times> 'g"

text \<open>
  Modelled from the spec: the sizes of the two partitions (scikit-learn, not under src/): \<open>n_test = ceil(test_size * n_samples)\<close>, the
  rest for training; a fraction outside (0, 1) or an empty training partition fails.
\<close>

definition validate_shuffle_split :: "nat \<Rightarrow> real \<Rightarrow> error + nat \<times> nat" where
  "validate_shuffle_split n_samples test_size =
     (if test_size \<le> 0 \<or> 1 \<le> test_size then Inl InsufficientSamplesError
      else let n_test = nat \<lceil>test_size * real n_samples\<rceil>;
               n_train = n_samples - n_test
           in if n_train = 0 then Inl InsufficientSamplesError else Inr (n_train, n_test))"

text \<open>
  Modelled from the spec: the proportional allocation (scikit-learn, not under src/) of \<open>n_draws\<close> draws to the classes. \<open>distribute\<close>
  is its loop over the distinct remainders, largest first.
\<close>

fun distribute ::
  "'g random_state \<Rightarrow> real list \<Rightarrow> real list \<Rightarrow> int list \<Rightarrow> nat \<Rightarrow> 'g \<Rightarrow> int list \<times> 'g" where
  "distribute rs remainder [] floored need g = (floored, g)"
| "distribute rs remainder (v # vs) floored need g =
     (let inds = filter (\<lambda>i. remainder ! i = v) [0..<length remainder];
          add_now = min (length inds) need;
          (chosen, g') = rs_choice rs g inds add_now;
          floored' = fold (\<lambda>i fl. fl[i := fl ! i + 1]) chosen floored;
          need' = need - add_now
      in if need' = 0 then (floored', g') else distribute rs remainder vs floored' need' g')"

text \<open>
  Modelled from the spec: the per-class sizes (scikit-learn, not under src/): the floors
  of the proportional shares, the missing draws handed out by \<open>distribute\<close>.
\<close>

definition approximate_mode ::
  "'g random_state \<Rightarrow> nat list \<Rightarrow> nat \<Rightarrow> 'g \<Rightarrow> nat list \<times> 'g" where
  "approximate_mode rs class_counts n_draws g =
     (let continuous = map (\<lambda>c. real c / real (sum_list class_counts) * real n_draws) class_counts;
          floored = map floor continuous;
          need_to_add = int n_draws - sum_list floored
      in if 0 < need_to_add then
           let remainder = map (\<lambda>(c, f). c - of_int f) (zip continuous floored);
               vals = rev (sort (remdups remainder));
               (floored', g') = distribute rs remainder vals floored (nat need_to_add) g
           in (map nat floored', g')
         else (map nat floored, g))"

text \<open>
  Modelled from the spec: the loop over the classes (scikit-learn, not under src/): the indices of a class are permuted, the first \<open>n\<close>
  go to training and the next \<open>t\<close> to evaluation.
\<close>

fun per_class ::
  "'g random_state \<Rightarrow> (nat list \<times> nat \<times> nat) list \<Rightarrow> 'g \<Rightarrow> nat list \<times> nat list \<times> 'g" where
  "per_class rs [] g = ([], [], g)"
| "per_class rs ((class_indices_i, n, t) # rest) g =
     (let (p, g') = rs_permutation rs g (length class_indices_i);
          perm_indices = map (\<lambda>j. class_indices_i ! min j (length class_indices_i - 1)) p;
          (train, test, g'') = per_class rs rest g'
      in (take n perm_indices @ train, take t (drop n perm_indices) @ test, g''))"

text \<open>
  Modelled from the spec: the row indices of the two partitions, with the checks on the
  class sizes (scikit-learn's stratified shuffle split, not under src/).
\<close>

definition stratified_indices ::
  "'g random_state \<Rightarrow> nat list \<Rightarrow> nat \<Rightarrow> nat \<Rightarrow> 'g \<Rightarrow> error + nat list \<times> nat list" where
  "stratified_indices rs y n_train n_test g =
     (let classes = sort (remdups y);
          n_classes = length classes;
          class_counts = map (count_list y) classes
      in if classes = [] \<or> list_ex (\<lambda>c. c < 2) class_counts then Inl InsufficientSamplesError
         else if n_train < n_classes \<or> n_test < n_classes then Inl InsufficientSamplesError
         else
           let class_indices = map (\<lambda>c. filter (\<lambda>i. y ! i = c) [0..<length y]) classes;
               (n_i, g1) = approximate_mode rs class_counts n_train g;
               class_counts_remaining = map (\<lambda>(c, n). c - n) (zip class_counts n_i);
               (t_i, g2) = approximate_mode rs class_counts_remaining n_test g1;
               (train, test, g3) = per_class rs (zip class_indices (zip n_i t_i)) g2;
               (ptrain, g4) = rs_permutation rs g3 (length train);
               (ptest, g5) = rs_permutation rs g4 (length test)
           in Inr (map ((!) train) ptrain, map ((!) test) ptest))"

text \<open>
  Modelled from the spec: \<open>train_test_split\<close> (scikit-learn, not under src/) as the
  source calls it; the result is \<open>(X_train, X_test, y_train, y_test)\<close>.
\<close>

definition train_test_split ::
  "'g random_state \<Rightarrow> 'a list \<Rightarrow> nat list \<Rightarrow> real \<Rightarrow> int
     \<Rightarrow> error + 'a list \<times> 'a list \<times> nat list \<times> nat list" where
  "train_test_split rs X y test_size random_state =
     (if length X \<noteq> length y then Inl InsufficientSamplesError
      else case validate_shuffle_split (length X) test_size of
             Inl e \<Rightarrow> Inl e
           | Inr (n_train, n_test) \<Rightarrow>
               (case stratified_indices rs y n_train n_test (rs_seeded rs random_state) of
                  Inl e \<Rightarrow> Inl e
                | Inr (train, test) \<Rightarrow>
                    Inr (map ((!) X) train, map ((!) X) test, map ((!) y) train, map ((!) y) test)))"

section \<open>Shape\<close>

lemma round64_zero: "round64 0 = 0"
  by (simp add: round64_def)

lemma length_rows3: "length (rows3 xs) = length xs div 3"
  by (induction xs rule: rows3.induct) simp_all

lemma rows3_all3: "r \<in> set (rows3 xs) \<Longrightarrow> length r = 3"
  by (induction xs rule: rows3.induct) auto

lemma concat_rows3: "length xs mod 3 = 0 \<Longrightarrow> concat (rows3 xs) = xs"
proof (induction xs rule: rows3.induct)
  case (1 x y z rest)
  then show ?case by (simp add: mod_Suc split: if_splits)
qed simp_all

text \<open>
  C4: an input whose length is not divisible by 3 fails with InvalidShapeError.
\<close>

theorem normalize_invalid_shape:
  "length flat mod 3 \<noteq> 0 \<Longrightarrow> normalize_landmarks flat = Inl InvalidShapeError"
  by (simp add: normalize_landmarks_def normalize_with_def reshape3_def)

theorem normalize_invalid_shape_witness:
  "length [1, 2, 3, 4 :: real] mod 3 \<noteq> 0 \<and>
   normalize_landmarks [1, 2, 3, 4] = Inl InvalidShapeError"
  using normalize_invalid_shape [of "[1, 2, 3, 4]"] by simp


section \<open>The anchor landmark\<close>

lemma rows3_Cons: "length flat mod 3 = 0 \<Longrightarrow> flat \<noteq> [] \<Longrightarrow>
  \<exists>x y z rest. flat = x # y # z # rest \<and> length rest mod 3 = 0"
  apply (cases flat; simp)
  subgoal for a as
    apply (cases as; simp)
    subgoal for b bs
      apply (cases bs; simp add: mod_Suc split: if_splits)
      done
    done
  done

lemma rows3_ConsE:
  assumes "length flat mod 3 = 0" and "flat \<noteq> []"
  obtains x y z rest where "flat = x # y # z # rest" and "length rest mod 3 = 0"
  using rows3_Cons [OF assms] by (elim exE conjE)

lemma rows3_replicate:
  "rows3 (replicate n a) = replicate (n div 3) [a, a, a]"
proof (induction n rule: less_induct)
  case (less n)
  show ?case
  proof (cases "n < 3")
    case True
    then consider "n = 0" | "n = 1" | "n = 2" by linarith
    then show ?thesis by cases (simp_all add: numeral_2_eq_2)
  next
    case False
    then obtain k where n: "n = Suc (Suc (Suc k))"
      by (metis not_less numeral_3_eq_3 less_Suc_eq_le not0_implies_Suc less_Suc0 Suc_less_eq)
    with less.IH [of k] show ?thesis by simp
  qed
qed

lemma normalize_with_Cons:
  "length rest mod 3 = 0 \<Longrightarrow> normalize_with rnd (x # y # z # rest) =
     Inr (concat (scale rnd (center rnd ([x, y, z] # rows3 rest) [x, y, z])))"
  by (simp add: normalize_with_def reshape3_def mod_Suc)

lemma center_length: "length (center rnd rows w) = length rows"
  by (simp add: center_def)

lemma center_all3: "length w = 3 \<Longrightarrow> \<forall>r\<in>set rows. length r = 3 \<Longrightarrow> \<forall>r\<in>set (center rnd rows w). length r = 3"
  by (auto simp: center_def row_sub_def)

lemma scale_all3: "\<forall>r\<in>set rows. length r = 3 \<Longrightarrow> \<forall>r\<in>set (scale rnd rows). length r = 3"
  by (auto simp: scale_def Let_def)

lemma scale_length: "length (scale rnd rows) = length rows"
  by (simp add: scale_def Let_def)

lemma length_concat3: "\<forall>r\<in>set rows. length r = 3 \<Longrightarrow> length (concat rows) = 3 * length rows"
  by (induction rows) auto

lemma scale_zero_head:
  assumes "rnd 0 = 0"
  shows "take 3 (concat (scale rnd ([0, 0, 0] # rows))) = [0, 0, 0]"
  using assms by (simp add: scale_def Let_def)

lemma center_Cons_self:
  assumes "rnd 0 = 0"
  shows "center rnd ([x, y, z] # rows) [x, y, z] = [0, 0, 0] # center rnd rows [x, y, z]"
  using assms by (simp add: center_def row_sub_def)

lemma length_normalized:
  assumes rest: "length rest mod 3 = 0"
  shows "length (concat (scale rnd (center rnd ([x, y, z] # rows3 rest) [x, y, z])))
         = length (x # y # z # rest)"
proof -
  have all3: "\<forall>r\<in>set (scale rnd (center rnd ([x, y, z] # rows3 rest) [x, y, z])). length r = 3"
    by (intro scale_all3 center_all3) (auto dest: rows3_all3)
  have "3 * Suc (length rest div 3) = Suc (Suc (Suc (length rest)))"
    using rest by presburger
  then show ?thesis
    by (simp only: length_concat3 [OF all3] scale_length center_length length_rows3 list.size)
      simp
qed

lemma normalize_with_anchor:
  assumes r0: "rnd 0 = 0" and len: "length flat mod 3 = 0" and ne: "flat \<noteq> []"
  shows "\<exists>out. normalize_with rnd flat = Inr out \<and> length out = length flat \<and> take 3 out = [0, 0, 0]"
proof -
  from len ne obtain x y z rest
    where flat: "flat = x # y # z # rest" and rest: "length rest mod 3 = 0"
    by (rule rows3_ConsE)
  let ?C = "center rnd ([x, y, z] # rows3 rest) [x, y, z]"
  have n: "normalize_with rnd (x # y # z # rest) = Inr (concat (scale rnd ?C))"
    by (rule normalize_with_Cons [OF rest])
  have l: "length (concat (scale rnd ?C)) = length (x # y # z # rest)"
    by (rule length_normalized [OF rest])
  have C: "?C = [0, 0, 0] # center rnd (rows3 rest) [x, y, z]"
    using r0 by (simp add: center_Cons_self)
  have t: "take 3 (concat (scale rnd ?C)) = [0, 0, 0]"
    using r0 by (simp only: C scale_zero_head)
  show ?thesis
    unfolding flat n using l t by simp
qed

text \<open>
  C1: for every valid input of length 63 the function returns a vector of length 63
  whose first three entries, the coordinates of the anchor landmark, are exactly 0.
\<close>

theorem normalize_anchor_zero:
  "length flat = 63 \<Longrightarrow>
   \<exists>out. normalize_landmarks flat = Inr out \<and> length out = 63 \<and> take 3 out = [0, 0, 0]"
proof -
  assume len: "length flat = 63"
  then have "flat \<noteq> []" by auto
  with len normalize_with_anchor [of round64 flat] show ?thesis
    by (simp add: normalize_landmarks_def round64_zero)
qed

theorem normalize_anchor_zero_witness:
  "length (replicate 63 (1::real)) = 63 \<and>
   (\<exists>out. normalize_landmarks (replicate 63 1) = Inr out \<and> length out = 63 \<and>
      take 3 out = [0, 0, 0])"
  using normalize_anchor_zero [of "replicate 63 1"] by simp

section \<open>The degenerate sample\<close>

lemma add_reduce_zeros: "rnd 0 = 0 \<Longrightarrow> add_reduce rnd [0, 0, 0] = 0"
  by simp

lemma row_norm_zeros: "rnd 0 = 0 \<Longrightarrow> row_norm rnd [0, 0, 0] = 0"
  by (simp add: row_norm_def)

lemma max_dist_zeros:
  "rnd 0 = 0 \<Longrightarrow> 0 < n \<Longrightarrow> max_dist rnd (replicate n [0, 0, 0]) = 0"
  by (simp add: max_dist_def row_norm_zeros)

fun all_at_anchor :: "real list \<Rightarrow> bool" where
  "all_at_anchor flat = (\<forall>r\<in>set (rows3 flat). r = take 3 flat)"

lemma center_all_same:
  "rnd 0 = 0 \<Longrightarrow> \<forall>r\<in>set rows. r = [x, y, z] \<Longrightarrow>
   center rnd rows [x, y, z] = replicate (length rows) [0, 0, 0]"
  by (induction rows) (auto simp: center_def row_sub_def)

lemma concat_replicate_zeros: "concat (replicate n [0, 0, 0 :: real]) = replicate (3 * n) 0"
  by (induction n) (simp_all add: numeral_3_eq_3)

lemma degenerate_center:
  assumes r0: "rnd 0 = 0" and same: "\<forall>r\<in>set rows. r = [x, y, z]"
  shows "center rnd ([x, y, z] # rows) [x, y, z] = replicate (Suc (length rows)) [0, 0, 0]"
  using center_all_same [of rnd "[x, y, z] # rows" x y z] r0 same by simp

lemma degenerate_scale:
  assumes r0: "rnd 0 = 0"
  shows "scale rnd (replicate (Suc n) [0, 0, 0]) = replicate (Suc n) [0, 0, 0]"
  using max_dist_zeros [of rnd "Suc n"] r0 by (simp add: scale_def)

lemma three_div: "length rest mod 3 = 0 \<Longrightarrow> 3 * Suc (length rest div 3) = Suc (Suc (Suc (length rest)))"
  by presburger

lemma normalize_with_degenerate_Cons:
  assumes r0: "rnd 0 = 0" and rest: "length rest mod 3 = 0"
    and same: "\<forall>r\<in>set (rows3 rest). r = [x, y, z]"
  shows "normalize_with rnd (x # y # z # rest) = Inr (replicate (length (x # y # z # rest)) 0)"
    and "max_dist rnd (center rnd ([x, y, z] # rows3 rest) [x, y, z]) = 0"
proof -
  have c: "center rnd ([x, y, z] # rows3 rest) [x, y, z]
           = replicate (Suc (length rest div 3)) [0, 0, 0]"
    using degenerate_center [of rnd "rows3 rest" x y z] r0 same by (simp only: length_rows3)
  show "max_dist rnd (center rnd ([x, y, z] # rows3 rest) [x, y, z]) = 0"
    unfolding c using max_dist_zeros [of rnd "Suc (length rest div 3)"] r0 by simp
  have "normalize_with rnd (x # y # z # rest)
        = Inr (replicate (3 * Suc (length rest div 3)) 0)"
    using degenerate_scale [of rnd "length rest div 3"] r0
    by (simp only: normalize_with_Cons [OF rest] c concat_replicate_zeros)
  then show "normalize_with rnd (x # y # z # rest) = Inr (replicate (length (x # y # z # rest)) 0)"
    unfolding three_div [OF rest] by simp
qed

lemma normalize_with_degenerate:
  assumes r0: "rnd 0 = 0" and len: "length flat mod 3 = 0" and ne: "flat \<noteq> []"
    and same: "\<forall>r\<in>set (rows3 flat). r = take 3 flat"
  shows "normalize_with rnd flat = Inr (replicate (length flat) 0) \<and>
         max_dist rnd (center rnd (rows3 flat) (take 3 flat)) = 0"
proof -
  from len ne obtain x y z rest
    where flat: "flat = x # y # z # rest" and rest: "length rest mod 3 = 0"
    by (rule rows3_ConsE)
  have same': "\<forall>r\<in>set (rows3 rest). r = [x, y, z]"
    using same unfolding flat by simp
  show ?thesis
    unfolding flat
    using normalize_with_degenerate_Cons [of rnd rest x y z] r0 rest same' by simp
qed

text \<open>
  C3: when all 21 landmarks equal the anchor landmark, the function returns the all-zero
  vector of length 63, and the guard \<open>max_dist > 0\<close> is false, so that the
  division is not reached.
\<close>

theorem normalize_degenerate:
  assumes "length flat = 63" and "\<forall>r\<in>set (rows3 flat). r = take 3 flat"
  shows "normalize_landmarks flat = Inr (replicate 63 0) \<and>
         \<not> 0 < max_dist round64 (center round64 (rows3 flat) (take 3 flat))"
proof -
  from assms(1) have "flat \<noteq> []" "length flat mod 3 = 0" by auto
  with normalize_with_degenerate [where rnd = round64 and flat = flat] assms
  show ?thesis by (simp add: normalize_landmarks_def round64_zero)
qed

theorem normalize_degenerate_witness:
  "length (replicate 63 (5::real)) = 63 \<and>
   rows3 (replicate 63 (5::real)) = replicate 21 (take 3 (replicate 63 5)) \<and>
   normalize_landmarks (replicate 63 5) = Inr (replicate 63 0) \<and>
   \<not> 0 < max_dist round64 (center round64 (rows3 (replicate 63 5)) (take 3 (replicate 63 5)))"
proof -
  have a: "take 3 (replicate 63 (5::real)) = [5, 5, 5]"
    by (simp add: numeral_3_eq_3)
  have b: "rows3 (replicate 63 (5::real)) = replicate 21 [5, 5, 5]"
    by (simp add: rows3_replicate)
  have "\<forall>r\<in>set (rows3 (replicate 63 (5::real))). r = take 3 (replicate 63 5)"
    unfolding a b by simp
  with normalize_degenerate [of "replicate 63 5"] a b show ?thesis by simp
qed

section \<open>Translation invariance\<close>







section \<open>Exact arithmetic\<close>






subsection \<open>Norms without rounding\<close>














section \<open>Rounding to binary64\<close>























section \<open>Unit scale\<close>




section \<open>Idempotence\<close>





section \<open>Label vocabulary: fitted order and round trip\<close>

lemma index_of_nth: "distinct xs \<Longrightarrow> i < length xs \<Longrightarrow> index_of xs (xs ! i) = Some i"
proof (induction xs arbitrary: i)
  case Nil
  then show ?case by simp
next
  case (Cons y ys)
  show ?case
  proof (cases i)
    case 0
    then show ?thesis by simp
  next
    case (Suc j)
    with Cons.prems have "ys ! j \<noteq> y" "j < length ys" "distinct ys" by auto
    with Cons.IH [of j] Suc show ?thesis by simp
  qed
qed

lemma index_of_mem: "x \<in> set xs \<Longrightarrow> \<exists>i<length xs. index_of xs x = Some i \<and> xs ! i = x"
proof (induction xs)
  case Nil
  then show ?case by simp
next
  case (Cons y ys)
  show ?case
  proof (cases "x = y")
    case True
    then show ?thesis by auto
  next
    case False
    with Cons obtain i where "i < length ys" "index_of ys x = Some i" "ys ! i = x" by auto
    with False show ?thesis by (intro exI [of _ "Suc i"]) simp
  qed
qed

lemma fit_sorted: "sorted_wrt (<) (fit labels)"
  by (simp add: fit_def strict_sorted_iff)

lemma fit_set: "set (fit labels) = set labels"
  by (simp add: fit_def)

text \<open>
  C5: the fitted vocabulary lists the distinct labels in strictly increasing
  (lexicographic) order, the label at position i has index i, so the indices are
  0..C-1, and decoding the index of a fitted label gives the label back.
\<close>

theorem label_vocabulary_roundtrip:
  "sorted_wrt (<) (fit labels) \<and> set (fit labels) = set labels \<and>
   (\<forall>i<length (fit labels). encode (fit labels) (fit labels ! i) = Inr i) \<and>
   (\<forall>l\<in>set labels. \<exists>i<length (fit labels).
       encode (fit labels) l = Inr i \<and> decode (fit labels) i = Inr l)"
proof (intro conjI allI impI ballI)
  show "sorted_wrt (<) (fit labels)" by (rule fit_sorted)
  show "set (fit labels) = set labels" by (rule fit_set)
next
  fix i assume "i < length (fit labels)"
  moreover have "distinct (fit labels)" by (simp add: fit_def)
  ultimately show "encode (fit labels) (fit labels ! i) = Inr i"
    by (simp add: encode_def index_of_nth)
next
  fix l assume "l \<in> set labels"
  then have "l \<in> set (fit labels)" by (simp add: fit_set)
  then obtain i where "i < length (fit labels)" "index_of (fit labels) l = Some i"
    "fit labels ! i = l"
    using index_of_mem by metis
  then show "\<exists>i<length (fit labels). encode (fit labels) l = Inr i \<and> decode (fit labels) i = Inr l"
    by (intro exI [of _ i]) (simp add: encode_def decode_def)
qed

theorem label_vocabulary_roundtrip_witness:
  "''b'' \<in> set [''b'', ''a'', ''b''] \<and>
   (\<exists>i. encode (fit [''b'', ''a'', ''b'']) ''b'' = Inr i \<and>
        decode (fit [''b'', ''a'', ''b'']) i = Inr ''b'')"
proof -
  have m: "''b'' \<in> set [''b'', ''a'', ''b'']" by simp
  from label_vocabulary_roundtrip [of "[''b'', ''a'', ''b'']"]
  have "\<forall>l\<in>set [''b'', ''a'', ''b'']. \<exists>i<length (fit [''b'', ''a'', ''b'']).
       encode (fit [''b'', ''a'', ''b'']) l = Inr i \<and> decode (fit [''b'', ''a'', ''b'']) i = Inr l"
    by (elim conjE)
  from bspec [OF this m] m show ?thesis by (elim exE conjE) (intro conjI exI)
qed


section \<open>Stratified split: failure and the balanced scenario\<close>

lemma stratified_indices_few:
  assumes "c \<in> set y" and "count_list y c < 2"
  shows "stratified_indices rs y n_train n_test g = Inl InsufficientSamplesError"
proof -
  have "c \<in> set (sort (remdups y))" using assms(1) by simp
  then have "list_ex (\<lambda>c. c < 2) (map (count_list y) (sort (remdups y)))"
    using assms(2) unfolding list_ex_iff by (simp add: image_iff) blast
  then show ?thesis by (simp add: stratified_indices_def Let_def)
qed

text \<open>
  C8: when some class of the dataset has fewer than 2 members, the split fails with
  InsufficientSamplesError.
\<close>

theorem split_insufficient_samples:
  assumes "\<exists>c\<in>set y. count_list y c < 2"
  shows "train_test_split rs X y test_size random_state = Inl InsufficientSamplesError"
proof -
  from assms obtain c where c: "c \<in> set y" "count_list y c < 2" by auto
  show ?thesis
    unfolding train_test_split_def
    by (simp add: stratified_indices_few [OF c] split: sum.splits prod.splits)
      (auto simp: validate_shuffle_split_def Let_def split: if_splits)
qed

theorem split_insufficient_samples_witness:
  "count_list [0, 0, 1 :: nat] 1 < 2 \<and>
   train_test_split
     \<lparr>rs_seeded = \<lambda>s. s, rs_permutation = \<lambda>g n. ([0..<n], g + 1),
      rs_choice = \<lambda>g inds k. (take k inds, g + 1)\<rparr>
     [10, 11, 12 :: nat] [0, 0, 1] (1 / 5) 42 = Inl InsufficientSamplesError"
proof -
  have "\<exists>c\<in>set [0, 0, 1 :: nat]. count_list [0, 0, 1] c < 2"
    by (intro bexI [of _ 1]) simp_all
  from split_insufficient_samples [OF this]
  show ?thesis by simp
qed

subsection \<open>Two balanced classes\<close>

lemma length_class_indices:
  "length (filter (\<lambda>i. y ! i = c) [0..<length y]) = count_list y c"
proof -
  have "filter (\<lambda>x. x = c) (map ((!) y) [0..<length y])
        = map ((!) y) (filter (\<lambda>i. y ! i = c) [0..<length y])"
    by (simp add: filter_map comp_def)
  then have "length (filter (\<lambda>i. y ! i = c) [0..<length y]) = length (filter (\<lambda>x. x = c) y)"
    by (metis length_map map_nth)
  also have "\<dots> = count_list y c"
    by (induction y) auto
  finally show ?thesis .
qed

lemma two_classes_set:
  fixes a b :: 'a
  assumes ab: "a \<noteq> b" and len: "length y = count_list y a + count_list y b"
    and pos: "0 < count_list y a" "0 < count_list y b"
  shows "set y = {a, b}"
proof -
  have split: "length (filter (\<lambda>x. x = a) ys) + length (filter (\<lambda>x. x = b) ys)
        + length (filter (\<lambda>x. x \<noteq> a \<and> x \<noteq> b) ys) = length ys" for ys
    using ab by (induction ys) auto
  have cnt: "count_list ys c = length (filter (\<lambda>x. x = c) ys)" for ys and c :: 'a
    by (induction ys) auto
  from split [of y] len have "length (filter (\<lambda>x. x \<noteq> a \<and> x \<noteq> b) y) = 0"
    by (simp add: cnt)
  then have "filter (\<lambda>x. x \<noteq> a \<and> x \<noteq> b) y = []" by simp
  then have sub: "set y \<subseteq> {a, b}"
    by (auto simp: filter_empty_conv)
  have "a \<in> set y" "b \<in> set y"
    using pos by (auto simp: count_list_0_iff intro: ccontr)
  with sub show ?thesis by auto
qed

lemma sort_two:
  assumes "distinct xs" and "set xs = {a, b}" and "a < b"
  shows "sort xs = [a, b]"
proof -
  have "sorted (sort xs)" "distinct (sort xs)" "set (sort xs) = set [a, b]"
    using assms by simp_all
  moreover have "sorted [a, b]" "distinct [a, b]" using assms(3) by simp_all
  ultimately show ?thesis by (metis sorted_distinct_set_unique)
qed

lemma take_permuted:
  assumes "distinct p" and "set p = {0..<length xs}"
  shows "set (map ((!) xs) p) = set xs"
    and "distinct xs \<Longrightarrow> distinct (map ((!) xs) p)"
    and "length (map ((!) xs) p) = length xs"
proof -
  show "set (map ((!) xs) p) = set xs"
    using assms(2) by (simp add: nth_image)
  have "length p = card (set p)" using assms(1) by (simp add: distinct_card)
  then show "length (map ((!) xs) p) = length xs" using assms(2) by simp
  assume "distinct xs"
  then have "inj_on ((!) xs) {0..<length xs}"
    by (auto simp: inj_on_def nth_eq_iff_index_eq)
  with assms show "distinct (map ((!) xs) p)" by (simp add: distinct_map)
qed

lemma clip_permuted:
  assumes "set p = {0..<length xs}"
  shows "map (\<lambda>j. xs ! min j (length xs - 1)) p = map ((!) xs) p"
  using assms by (intro map_cong refl) (auto simp: min_def)

lemma approximate_mode_even:
  "approximate_mode rs [20, 20] 32 g = ([16, 16], g)"
  "approximate_mode rs [4, 4] 8 g = ([4, 4], g)"
  by (simp_all add: approximate_mode_def Let_def)

lemma validate_fifth: "validate_shuffle_split 40 (1 / 5) = Inr (32, 8)"
  by (simp add: validate_shuffle_split_def Let_def)

lemma per_class_two:
  assumes "rs_permutation rs g (length ca) = (pa, g1)"
    and "rs_permutation rs g1 (length cb) = (pb, g2)"
    and "set pa = {0..<length ca}" and "set pb = {0..<length cb}"
  shows "per_class rs [(ca, n1, t1), (cb, n2, t2)] g =
         (take n1 (map ((!) ca) pa) @ take n2 (map ((!) cb) pb),
          take t1 (drop n1 (map ((!) ca) pa)) @ take t2 (drop n2 (map ((!) cb) pb)), g2)"
proof -
  have c1: "map (\<lambda>j. ca ! min j (length ca - Suc 0)) pa = map ((!) ca) pa"
    using clip_permuted [OF assms(3)] by simp
  have c2: "map (\<lambda>j. cb ! min j (length cb - Suc 0)) pb = map ((!) cb) pb"
    using clip_permuted [OF assms(4)] by simp
  show ?thesis
    using assms(1,2) by (simp add: Let_def c1 c2)
qed

lemma split_pieces:
  assumes "distinct P" and "length P = 20"
  shows "set (take 16 P) \<union> set (take 4 (drop 16 P)) = set P"
    and "set (take 16 P) \<inter> set (take 4 (drop 16 P)) = {}"
    and "take 16 P \<noteq> []" and "take 4 (drop 16 P) \<noteq> []"
    and "length (take 16 P) = 16" and "length (take 4 (drop 16 P)) = 4"
proof -
  have d: "take 4 (drop 16 P) = drop 16 P" using assms(2) by simp
  show "set (take 16 P) \<union> set (take 4 (drop 16 P)) = set P"
    unfolding d by (metis append_take_drop_id set_append)
  show "set (take 16 P) \<inter> set (take 4 (drop 16 P)) = {}"
    unfolding d using assms(1) by (intro set_take_disj_set_drop_if_distinct) simp_all
  show "take 16 P \<noteq> []" "take 4 (drop 16 P) \<noteq> []"
    "length (take 16 P) = 16" "length (take 4 (drop 16 P)) = 4"
    using assms(2) by auto
qed

lemma stratified_two_classes:
  fixes rs :: "'g random_state" and y :: "nat list"
  assumes perm: "\<And>g n. distinct (fst (rs_permutation rs g n)) \<and>
                          set (fst (rs_permutation rs g n)) = {0..<n}"
    and leny: "length y = 40" and ab: "a < b"
    and ca: "count_list y a = 20" and cb: "count_list y b = 20"
  shows "\<exists>train test. stratified_indices rs y 32 8 g = Inr (train, test) \<and>
           distinct (train @ test) \<and> set (train @ test) = {0..<40} \<and>
           length train = 32 \<and> length test = 8 \<and>
           a \<in> (!) y ` set train \<and> b \<in> (!) y ` set train \<and>
           a \<in> (!) y ` set test \<and> b \<in> (!) y ` set test"
proof -
  define Ia where "Ia = filter (\<lambda>i. y ! i = a) [0..<40]"
  define Ib where "Ib = filter (\<lambda>i. y ! i = b) [0..<40]"
  have sety: "set y = {a, b}"
    using ab ca cb leny by (intro two_classes_set) simp_all
  have classes: "sort (remdups y) = [a, b]"
    using sety ab by (intro sort_two) simp_all
  have lIa: "length Ia = 20" and lIb: "length Ib = 20"
    using length_class_indices [of y a] length_class_indices [of y b] ca cb leny
    by (simp_all add: Ia_def Ib_def)
  have dIa: "distinct Ia" and dIb: "distinct Ib"
    by (simp_all add: Ia_def Ib_def)
  have sIa: "set Ia = {i. i < 40 \<and> y ! i = a}" and sIb: "set Ib = {i. i < 40 \<and> y ! i = b}"
    by (auto simp: Ia_def Ib_def)
  have disj: "set Ia \<inter> set Ib = {}"
    using ab by (auto simp: sIa sIb)
  have cover: "set Ia \<union> set Ib = {0..<40}"
  proof -
    have "\<forall>i<40. y ! i = a \<or> y ! i = b"
      using sety leny nth_mem [of _ y] by auto
    then show ?thesis by (auto simp: sIa sIb)
  qed
  obtain pa g1 where pa: "rs_permutation rs g 20 = (pa, g1)" by (cases "rs_permutation rs g 20")
  obtain pb g2 where pb: "rs_permutation rs g1 20 = (pb, g2)" by (cases "rs_permutation rs g1 20")
  have ppa: "distinct pa" "set pa = {0..<20}" using perm [of g 20] pa by simp_all
  have ppb: "distinct pb" "set pb = {0..<20}" using perm [of g1 20] pb by simp_all
  define Pa where "Pa = map ((!) Ia) pa"
  define Pb where "Pb = map ((!) Ib) pb"
  have Pa: "set Pa = set Ia" "distinct Pa" "length Pa = 20"
    unfolding Pa_def using take_permuted [of pa Ia] ppa dIa lIa by simp_all
  have Pb: "set Pb = set Ib" "distinct Pb" "length Pb = 20"
    unfolding Pb_def using take_permuted [of pb Ib] ppb dIb lIb by simp_all
  define train0 where "train0 = take 16 Pa @ take 16 Pb"
  define test0 where "test0 = take 4 (drop 16 Pa) @ take 4 (drop 16 Pb)"
  note A = split_pieces [OF Pa(2,3)]
  note B = split_pieces [OF Pb(2,3)]
  have pc: "per_class rs [(Ia, 16, 4), (Ib, 16, 4)] g = (train0, test0, g2)"
    unfolding train0_def test0_def Pa_def Pb_def
    using pa pb ppa(2) ppb(2) by (intro per_class_two) (simp_all add: lIa lIb)
  have l0: "length train0 = 32" "length test0 = 8"
    using A(5,6) B(5,6) by (simp_all add: train0_def test0_def)
  have s0: "set train0 \<union> set test0 = {0..<40}"
    using A(1) B(1) Pa(1) Pb(1) cover by (auto simp: train0_def test0_def)
  have i0: "set train0 \<inter> set test0 = {}"
  proof -
    have "set (take 16 Pa) \<subseteq> set Ia" "set (take 4 (drop 16 Pa)) \<subseteq> set Ia"
      "set (take 16 Pb) \<subseteq> set Ib" "set (take 4 (drop 16 Pb)) \<subseteq> set Ib"
      using A(1) B(1) Pa(1) Pb(1) by blast+
    with A(2) B(2) disj show ?thesis
      unfolding train0_def test0_def set_append by blast
  qed
  have d0: "distinct train0" "distinct test0"
  proof -
    have "set (take 16 Pa) \<subseteq> set Ia" "set (take 4 (drop 16 Pa)) \<subseteq> set Ia"
      "set (take 16 Pb) \<subseteq> set Ib" "set (take 4 (drop 16 Pb)) \<subseteq> set Ib"
      using A(1) B(1) Pa(1) Pb(1) by blast+
    with disj have "set (take 16 Pa) \<inter> set (take 16 Pb) = {}"
      "set (take 4 (drop 16 Pa)) \<inter> set (take 4 (drop 16 Pb)) = {}" by blast+
    then show "distinct train0" "distinct test0"
      using Pa(2) Pb(2) by (simp_all add: train0_def test0_def)
  qed
  obtain pt g3 where pt: "rs_permutation rs g2 32 = (pt, g3)" by (cases "rs_permutation rs g2 32")
  obtain pe g4 where pe: "rs_permutation rs g3 8 = (pe, g4)" by (cases "rs_permutation rs g3 8")
  have ppt: "distinct pt" "set pt = {0..<32}" using perm [of g2 32] pt by simp_all
  have ppe: "distinct pe" "set pe = {0..<8}" using perm [of g3 8] pe by simp_all
  define train where "train = map ((!) train0) pt"
  define test where "test = map ((!) test0) pe"
  have T: "set train = set train0" "distinct train" "length train = 32"
    unfolding train_def using take_permuted [of pt train0] ppt d0(1) l0(1) by simp_all
  have E: "set test = set test0" "distinct test" "length test = 8"
    unfolding test_def using take_permuted [of pe test0] ppe d0(2) l0(2) by simp_all
  have am1: "approximate_mode rs [20, 20] 32 g = ([16, 16], g)"
    and am2: "approximate_mode rs [4, 4] 8 g = ([4, 4], g)"
    by (rule approximate_mode_even)+
  have si: "stratified_indices rs y 32 8 g = Inr (train, test)"
    unfolding stratified_indices_def classes
    by (simp add: Let_def ca cb leny am1 am2 pc [unfolded Ia_def Ib_def] l0 pt pe
        train_def test_def del: per_class.simps)
  have ina: "a \<in> (!) y ` set train" "a \<in> (!) y ` set test"
  proof -
    obtain i where "i \<in> set (take 16 Pa)" using A(3) by (cases "take 16 Pa") auto
    moreover from this have "i \<in> set Ia" using A(1) Pa(1) by blast
    ultimately have "i \<in> set train" "y ! i = a" by (auto simp: T(1) train0_def sIa)
    then show "a \<in> (!) y ` set train" by force
    obtain j where "j \<in> set (take 4 (drop 16 Pa))" using A(4) by (cases "take 4 (drop 16 Pa)") auto
    moreover from this have "j \<in> set Ia" using A(1) Pa(1) by blast
    ultimately have "j \<in> set test" "y ! j = a" by (auto simp: E(1) test0_def sIa)
    then show "a \<in> (!) y ` set test" by force
  qed
  have inb: "b \<in> (!) y ` set train" "b \<in> (!) y ` set test"
  proof -
    obtain i where "i \<in> set (take 16 Pb)" using B(3) by (cases "take 16 Pb") auto
    moreover from this have "i \<in> set Ib" using B(1) Pb(1) by blast
    ultimately have "i \<in> set train" "y ! i = b" by (auto simp: T(1) train0_def sIb)
    then show "b \<in> (!) y ` set train" by force
    obtain j where "j \<in> set (take 4 (drop 16 Pb))" using B(4) by (cases "take 4 (drop 16 Pb)") auto
    moreover from this have "j \<in> set Ib" using B(1) Pb(1) by blast
    ultimately have "j \<in> set test" "y ! j = b" by (auto simp: E(1) test0_def sIb)
    then show "b \<in> (!) y ` set test" by force
  qed
  have "distinct (train @ test)"
    using T(1,2) E(1,2) i0 by simp
  moreover have "set (train @ test) = {0..<40}"
    using T(1) E(1) s0 by simp
  ultimately show ?thesis
    using si T(3) E(3) ina inb by (intro exI [of _ train] exI [of _ test]) simp
qed

text \<open>
  C7: for a dataset of 40 rows in two classes of 20 rows each, holdout fraction 0.2 and
  any seed, whatever permutations the generator draws, the split succeeds; its two
  partitions are disjoint and together hold every row exactly once (32 + 8 = 40 rows),
  and each partition holds a row of both classes.
\<close>

theorem split_two_balanced_classes:
  fixes rs :: "'g random_state" and X :: "'a list" and y :: "nat list"
  assumes perm: "\<And>g n. distinct (fst (rs_permutation rs g n)) \<and>
                          set (fst (rs_permutation rs g n)) = {0..<n}"
    and lenX: "length X = 40" and leny: "length y = 40" and ab: "a < b"
    and ca: "count_list y a = 20" and cb: "count_list y b = 20"
  shows "\<exists>train test.
           train_test_split rs X y (1 / 5) seed =
             Inr (map ((!) X) train, map ((!) X) test, map ((!) y) train, map ((!) y) test) \<and>
           distinct (train @ test) \<and> set (train @ test) = {0..<length X} \<and>
           length (map ((!) X) train) + length (map ((!) X) test) = length X \<and>
           a \<in> set (map ((!) y) train) \<and> b \<in> set (map ((!) y) train) \<and>
           a \<in> set (map ((!) y) test) \<and> b \<in> set (map ((!) y) test)"
proof -
  from stratified_two_classes [of rs y a b "rs_seeded rs seed", OF perm leny ab ca cb]
  obtain train test where
    si: "stratified_indices rs y 32 8 (rs_seeded rs seed) = Inr (train, test)"
    and p: "distinct (train @ test)" "set (train @ test) = {0..<40}"
      "length train = 32" "length test = 8"
      "a \<in> (!) y ` set train" "b \<in> (!) y ` set train"
      "a \<in> (!) y ` set test" "b \<in> (!) y ` set test"
    by (elim exE conjE)
  have "train_test_split rs X y (1 / 5) seed =
          Inr (map ((!) X) train, map ((!) X) test, map ((!) y) train, map ((!) y) test)"
    by (simp add: train_test_split_def lenX leny validate_fifth si)
  with p show ?thesis
    by (intro exI [of _ train] exI [of _ test]) (simp add: lenX)
qed

lemma count_list_replicate: "count_list (replicate n x) z = (if x = z then n else 0)"
  by (induction n) auto

theorem split_two_balanced_classes_witness:
  "count_list (replicate 20 (0::nat) @ replicate 20 1) 0 = 20 \<and>
   count_list (replicate 20 (0::nat) @ replicate 20 1) 1 = 20 \<and>
   (\<exists>train test.
      train_test_split
        \<lparr>rs_seeded = \<lambda>s. s, rs_permutation = \<lambda>g n. ([0..<n], g + 1),
         rs_choice = \<lambda>g inds k. (take k inds, g + 1)\<rparr>
        [0..<40] (replicate 20 (0::nat) @ replicate 20 1) (1 / 5) 42 =
        Inr (map ((!) [0..<40]) train, map ((!) [0..<40]) test,
             map ((!) (replicate 20 (0::nat) @ replicate 20 1)) train,
             map ((!) (replicate 20 (0::nat) @ replicate 20 1)) test) \<and>
      distinct (train @ test) \<and> set (train @ test) = {0..<40})"
proof -
  let ?rs = "\<lparr>rs_seeded = \<lambda>s. s, rs_permutation = \<lambda>g n. ([0..<n], g + 1),
              rs_choice = \<lambda>g inds k. (take k inds, g + 1)\<rparr> :: int random_state"
  let ?y = "replicate 20 (0::nat) @ replicate 20 1"
  have c: "count_list ?y 0 = 20" "count_list ?y 1 = 20"
    by (simp_all add: count_list_replicate)
  have "\<exists>train test.
           train_test_split ?rs [0..<40] ?y (1 / 5) 42 =
             Inr (map ((!) [0..<40]) train, map ((!) [0..<40]) test,
                  map ((!) ?y) train, map ((!) ?y) test) \<and>
           distinct (train @ test) \<and> set (train @ test) = {0..<length [0..<40]} \<and>
           length (map ((!) [0..<40]) train) + length (map ((!) [0..<40]) test) = length [0..<40] \<and>
           0 \<in> set (map ((!) ?y) train) \<and> 1 \<in> set (map ((!) ?y) train) \<and>
           0 \<in> set (map ((!) ?y) test) \<and> 1 \<in> set (map ((!) ?y) test)"
    by (rule split_two_balanced_classes [where rs = ?rs and a = 0 and b = 1])
      (simp_all add: count_list_replicate)
  then obtain train test where
    "train_test_split ?rs [0..<40] ?y (1 / 5) 42 =
       Inr (map ((!) [0..<40]) train, map ((!) [0..<40]) test,
            map ((!) ?y) train, map ((!) ?y) test)"
    "distinct (train @ test)" "set (train @ test) = {0..<length [0..<40]}"
    by (elim exE conjE)
  then have "\<exists>train test.
      train_test_split ?rs [0..<40] ?y (1 / 5) 42 =
        Inr (map ((!) [0..<40]) train, map ((!) [0..<40]) test,
             map ((!) ?y) train, map ((!) ?y) test) \<and>
      distinct (train @ test) \<and> set (train @ test) = {0..<40}"
    by (intro exI [of _ train] exI [of _ test]) simp
  with c show ?thesis by (intro conjI)
qed

end
